theory Spec2Isabelle
  imports Complex_Main
begin

section \<open>Python values, exceptions and the problem instance\<close>

text \<open>
  The values that can reach \<open>evaluate_solution\<close>. Only the distinctions the code makes
  are kept: \<open>isinstance(solution, (list, tuple))\<close>, \<open>len\<close>, \<open>isinstance(s, int)\<close>
  (which holds for \<open>bool\<close> too, a subclass of \<open>int\<close>) and integer comparison. The
  payload of a float is never inspected by the code; the one float the code produces is
  the literal \<open>1e9\<close>, which is exactly \<open>10^9\<close>.
\<close>

datatype pyval =
    PyInt int
  | PyBool bool
  | PyFloat real
  | PyStr string
  | PyNone
  | PyList "pyval list"
  | PyTuple "pyval list"

text \<open>
  The exceptions that leave the two methods: \<open>ValueError\<close> (line 106, a failing
  \<open>int(...)\<close>, a failing unpacking of \<open>pair.split(',')\<close>), \<open>IndexError\<close> (list
  indexing) and \<open>StopIteration\<close> (\<open>next(file_it)\<close> on an exhausted iterator).
\<close>

datatype exn = ValueError | IndexError | StopIteration

text \<open>
  The attributes set by \<open>__init__\<close> and \<open>_load_instance_from_file\<close>. The dictionary
  \<open>successors\<close> is an association list in insertion order, the order in which
  \<open>.items()\<close> iterates.
\<close>

record problem_instance =
  nb_tasks :: int
  max_nb_stations :: int
  cycle_time :: int
  processing_time :: "int list"
  successors :: "(int \<times> int list) list"

section \<open>evaluate\_solution\<close>

definition PENALTY :: real where
  "PENALTY = 1000000000"

text \<open>\<open>isinstance(solution, (list, tuple))\<close> together with the items of the sequence.\<close>

fun seq_items :: "pyval \<Rightarrow> pyval list option" where
  "seq_items (PyList xs) = Some xs"
| "seq_items (PyTuple xs) = Some xs"
| "seq_items _ = None"

fun isinstance_int :: "pyval \<Rightarrow> bool" where
  "isinstance_int (PyInt _) = True"
| "isinstance_int (PyBool _) = True"
| "isinstance_int _ = False"

text \<open>
  The integer an \<open>int\<close> instance compares, hashes and adds as (\<open>True == 1\<close>,
  \<open>False == 0\<close>). It is only applied to values that passed \<open>isinstance_int\<close>; the
  last equation is never reached by \<open>evaluate_solution\<close>.
\<close>

fun int_of :: "pyval \<Rightarrow> int" where
  "int_of (PyInt i) = i"
| "int_of (PyBool b) = (if b then 1 else 0)"
| "int_of _ = 0"

text \<open>The negation of the test of line 109: \<open>not isinstance(s, int) or s < 0 or s >= max_nb_stations\<close>.\<close>

definition valid_station :: "problem_instance \<Rightarrow> pyval \<Rightarrow> bool" where
  "valid_station inst s =
     (\<not> (\<not> isinstance_int s \<or> int_of s < 0 \<or> int_of s \<ge> max_nb_stations inst))"

text \<open>\<open>station_times.setdefault(station, 0)\<close> followed by a read.\<close>

definition station_get :: "(int \<rightharpoonup> int) \<Rightarrow> int \<Rightarrow> int" where
  "station_get st s = (case st s of None \<Rightarrow> 0 | Some v \<Rightarrow> v)"

text \<open>
  The loop of lines 114-118 from task index \<open>i\<close> on: \<open>Inr False\<close> is the early
  \<open>return PENALTY\<close>, \<open>Inr True\<close> is falling out of the loop, \<open>Inl IndexError\<close> is
  \<open>self.processing_time[i]\<close> out of range (\<open>i\<close> is never negative here).
\<close>

fun check_capacity :: "problem_instance \<Rightarrow> (int \<rightharpoonup> int) \<Rightarrow> nat \<Rightarrow> int list \<Rightarrow> exn + bool" where
  "check_capacity inst st i [] = Inr True"
| "check_capacity inst st i (station # rest) =
     (if i < length (processing_time inst) then
        (let t = station_get st station + processing_time inst ! i in
         if t > cycle_time inst then Inr False
         else check_capacity inst (st(station \<mapsto> t)) (Suc i) rest)
      else Inl IndexError)"

text \<open>Python list indexing: a negative index counts from the end; out of range raises.\<close>

definition py_index :: "'a list \<Rightarrow> int \<Rightarrow> exn + 'a" where
  "py_index xs i =
     (if 0 \<le> i \<and> i < int (length xs) then Inr (xs ! nat i)
      else if i < 0 \<and> - int (length xs) \<le> i then Inr (xs ! nat (int (length xs) + i))
      else Inl IndexError)"

text \<open>
  The inner loop of lines 122-124 for one predecessor \<open>i\<close>; \<open>solution[i]\<close> is
  evaluated before \<open>solution[j]\<close>.
\<close>

fun check_succs :: "int list \<Rightarrow> int \<Rightarrow> int list \<Rightarrow> exn + bool" where
  "check_succs sol i [] = Inr True"
| "check_succs sol i (j # js) =
     (case py_index sol i of
        Inl e \<Rightarrow> Inl e
      | Inr a \<Rightarrow>
          (case py_index sol j of
             Inl e \<Rightarrow> Inl e
           | Inr b \<Rightarrow> if a > b then Inr False else check_succs sol i js))"

text \<open>The outer loop of lines 121-124 over \<open>self.successors.items()\<close>.\<close>

fun check_precedence :: "int list \<Rightarrow> (int \<times> int list) list \<Rightarrow> exn + bool" where
  "check_precedence sol [] = Inr True"
| "check_precedence sol ((i, succs) # rest) =
     (case check_succs sol i succs of
        Inl e \<Rightarrow> Inl e
      | Inr False \<Rightarrow> Inr False
      | Inr True \<Rightarrow> check_precedence sol rest)"

text \<open>
  \<open>len(set(solution))\<close>: the entries are \<open>int\<close> instances here, and the set identifies
  entries that are equal as integers.
\<close>

definition num_stations_used :: "int list \<Rightarrow> int" where
  "num_stations_used sol = int (length (remdups sol))"

text \<open>
  Lines 104-128. \<open>Inl\<close> is a raised exception, \<open>Inr\<close> the returned value: the float
  \<open>PENALTY\<close> or the integer count. After the validity loop every entry is an \<open>int\<close>
  instance, so the later loops run on the integers \<open>map int_of xs\<close>.
\<close>

definition evaluate_solution :: "problem_instance \<Rightarrow> pyval \<Rightarrow> exn + pyval" where
  "evaluate_solution inst solution =
     (case seq_items solution of
        None \<Rightarrow> Inl ValueError
      | Some xs \<Rightarrow>
          if int (length xs) \<noteq> nb_tasks inst then Inl ValueError
          else if \<exists>s \<in> set xs. \<not> valid_station inst s then Inr (PyFloat PENALTY)
          else
            (let sol = map int_of xs in
             case check_capacity inst Map.empty 0 sol of
               Inl e \<Rightarrow> Inl e
             | Inr False \<Rightarrow> Inr (PyFloat PENALTY)
             | Inr True \<Rightarrow>
                 (case check_precedence sol (successors inst) of
                    Inl e \<Rightarrow> Inl e
                  | Inr False \<Rightarrow> Inr (PyFloat PENALTY)
                  | Inr True \<Rightarrow> Inr (PyInt (num_stations_used sol)))))"

section \<open>\_load\_instance\_from\_file\<close>

text \<open>
  The model starts at \<open>tokens = f.read().split()\<close>: path resolution and the file read
  are outside it. \<open>file_it\<close> is the list of tokens not yet consumed.

  \<open>py_int\<close> is \<open>int(s)\<close> on a string whose characters are code points below 256:
  whitespace is stripped at both ends, then come an optional sign and decimal digits,
  with single underscores allowed between digits. \<open>None\<close> is the \<open>ValueError\<close> of a
  literal that is not an integer, or of one with more digits than the interpreter's
  limit on conversions, 4300 by default and left as it is by the program. Leading zeros
  count towards the limit; the sign and the underscores do not. Below 256 the only
  decimal digits are \<open>0\<close> to \<open>9\<close>, and the whitespace \<open>int\<close> strips is tab, line
  feed, vertical tab, form feed, carriage return, space, U+0085 and U+00A0.
\<close>

definition is_space :: "char \<Rightarrow> bool" where
  "is_space c = ((of_char c :: nat) \<in> {9, 10, 11, 12, 13, 32, 133, 160})"

definition strip_space :: "string \<Rightarrow> string" where
  "strip_space s = rev (dropWhile is_space (rev (dropWhile is_space s)))"

definition is_digit :: "char \<Rightarrow> bool" where
  "is_digit c = (48 \<le> (of_char c :: nat) \<and> (of_char c :: nat) \<le> 57)"

definition digit_val :: "char \<Rightarrow> nat" where
  "digit_val c = of_char c - 48"

definition int_max_str_digits :: nat where
  "int_max_str_digits = 4300"

text \<open>
  The digits after the sign: \<open>prev\<close> tells whether the character before was a digit,
  which an underscore and the end of the literal both require.
\<close>

fun parse_digits :: "bool \<Rightarrow> nat \<Rightarrow> string \<Rightarrow> nat option" where
  "parse_digits prev acc [] = (if prev then Some acc else None)"
| "parse_digits prev acc (c # cs) =
     (if is_digit c then parse_digits True (10 * acc + digit_val c) cs
      else if c = CHR ''_'' \<and> prev then parse_digits False acc cs
      else None)"

definition parse_decimal :: "string \<Rightarrow> nat option" where
  "parse_decimal s =
     (if length (filter is_digit s) > int_max_str_digits then None
      else parse_digits False 0 s)"

fun signed_literal :: "string \<Rightarrow> int option" where
  "signed_literal [] = None"
| "signed_literal (c # cs) =
     (if c = CHR ''-'' then map_option (\<lambda>n. - int n) (parse_decimal cs)
      else if c = CHR ''+'' then map_option int (parse_decimal cs)
      else map_option int (parse_decimal (c # cs)))"

definition py_int :: "string \<Rightarrow> int option" where
  "py_int s = signed_literal (strip_space s)"

text \<open>\<open>s.split(sep)\<close> for a one-character separator; the result is never empty.\<close>

fun split_on :: "char \<Rightarrow> string \<Rightarrow> string list" where
  "split_on sep [] = [[]]"
| "split_on sep (c # cs) =
     (if c = sep then [] # split_on sep cs
      else (case split_on sep cs of w # ws \<Rightarrow> (c # w) # ws | [] \<Rightarrow> [[c]]))"

text \<open>
  \<open>d[k] = v\<close> on a dictionary kept in insertion order: an existing key keeps its place.
\<close>

fun dict_set :: "'k \<Rightarrow> 'v \<Rightarrow> ('k \<times> 'v) list \<Rightarrow> ('k \<times> 'v) list" where
  "dict_set k v [] = [(k, v)]"
| "dict_set k v ((k', v') # d) = (if k' = k then (k', v) # d else (k', v') # dict_set k v d)"

text \<open>Lines 84-87: append to the list of an existing key, or start a new list.\<close>

fun dict_append :: "int \<Rightarrow> int \<Rightarrow> (int \<times> int list) list \<Rightarrow> (int \<times> int list) list" where
  "dict_append pred succ [] = [(pred, [succ])]"
| "dict_append pred succ ((k, l) # d) =
     (if k = pred then (k, l @ [succ]) # d else (k, l) # dict_append pred succ d)"

text \<open>\<open>next(file_it)\<close>.\<close>

fun next_token :: "string list \<Rightarrow> exn + (string \<times> string list)" where
  "next_token [] = Inl StopIteration"
| "next_token (t # ts) = Inr (t, ts)"

text \<open>\<open>for _ in range(k): next(file_it)\<close>.\<close>

fun skip_tokens :: "nat \<Rightarrow> string list \<Rightarrow> exn + string list" where
  "skip_tokens 0 ts = Inr ts"
| "skip_tokens (Suc k) ts =
     (case next_token ts of Inl e \<Rightarrow> Inl e | Inr (_, ts') \<Rightarrow> skip_tokens k ts')"

text \<open>\<open>int(next(file_it))\<close>.\<close>

definition read_int :: "string list \<Rightarrow> exn + (int \<times> string list)" where
  "read_int ts =
     (case next_token ts of
        Inl e \<Rightarrow> Inl e
      | Inr (t, ts') \<Rightarrow> (case py_int t of None \<Rightarrow> Inl ValueError | Some v \<Rightarrow> Inr (v, ts')))"

text \<open>The loop of lines 66-68, \<open>k\<close> iterations left, filling \<open>processing_time_dict\<close>.\<close>

fun read_times :: "nat \<Rightarrow> (int \<times> int) list \<Rightarrow> string list \<Rightarrow> exn + ((int \<times> int) list \<times> string list)" where
  "read_times 0 d ts = Inr (d, ts)"
| "read_times (Suc k) d ts =
     (case read_int ts of
        Inl e \<Rightarrow> Inl e
      | Inr (number, ts') \<Rightarrow>
          (case read_int ts' of
             Inl e \<Rightarrow> Inl e
           | Inr (time, ts'') \<Rightarrow> read_times k (dict_set (number - 1) time d) ts''))"

text \<open>
  Lines 81-83: \<open>pred, succ = pair.split(',')\<close> raises \<open>ValueError\<close> unless there are
  exactly two parts; then both parts go through \<open>int\<close> and lose one.
\<close>

definition parse_pair :: "string \<Rightarrow> exn + (int \<times> int)" where
  "parse_pair pair =
     (case split_on CHR '','' pair of
        [pred, succ] \<Rightarrow>
          (case py_int pred of
             None \<Rightarrow> Inl ValueError
           | Some p \<Rightarrow>
               (case py_int succ of
                  None \<Rightarrow> Inl ValueError
                | Some s \<Rightarrow> Inr (p - 1, s - 1)))
      | _ \<Rightarrow> Inl ValueError)"

text \<open>
  The \<open>while True\<close> loop of lines 75-87: \<open>StopIteration\<close> from \<open>next\<close> is caught and
  ends the loop, so the empty list returns the dictionary built so far.
\<close>

fun scan_successors :: "(int \<times> int list) list \<Rightarrow> string list \<Rightarrow> exn + (int \<times> int list) list" where
  "scan_successors d [] = Inr d"
| "scan_successors d (pair # ts) =
     (if CHR '','' \<in> set pair then
        (case parse_pair pair of
           Inl e \<Rightarrow> Inl e
         | Inr (pred, succ) \<Rightarrow> scan_successors (dict_append pred succ d) ts)
      else scan_successors d ts)"

text \<open>Sequencing of statements that may raise.\<close>

definition bind_exn :: "exn + 'a \<Rightarrow> ('a \<Rightarrow> exn + 'b) \<Rightarrow> exn + 'b" where
  "bind_exn m f = (case m of Inl e \<Rightarrow> Inl e | Inr x \<Rightarrow> f x)"

text \<open>
  Lines 48-87 on the token list. \<open>range(self.nb_tasks)\<close> is empty for a count that is
  not positive, hence \<open>nat n\<close>. \<open>sorted(..., key=lambda x: x[0])\<close> is the stable
  \<open>sort_key fst\<close>.
\<close>

definition load_instance_from_tokens :: "string list \<Rightarrow> exn + problem_instance" where
  "load_instance_from_tokens tokens =
     bind_exn (skip_tokens 3 tokens) (\<lambda>ts1.
     bind_exn (read_int ts1) (\<lambda>(n, ts2).
     bind_exn (skip_tokens 2 ts2) (\<lambda>ts3.
     bind_exn (read_int ts3) (\<lambda>(c, ts4).
     bind_exn (skip_tokens 5 ts4) (\<lambda>ts5.
     bind_exn (read_times (nat n) [] ts5) (\<lambda>(d, ts6).
     bind_exn (skip_tokens 2 ts6) (\<lambda>ts7.
     bind_exn (scan_successors [] ts7) (\<lambda>sc.
       Inr \<lparr>nb_tasks = n, max_nb_stations = n, cycle_time = c,
            processing_time = map snd (sort_key fst d), successors = sc\<rparr>))))))))"

section \<open>The vocabulary of the specification\<close>

subsection \<open>Instances and assignments\<close>

text \<open>
  The invariants the data model states for a problem instance: \<open>processing_time\<close> has
  \<open>nb_tasks\<close> entries and every index in \<open>successors\<close> is a task index; and, apart,
  that processing times are not negative. The constructor checks none of them.
\<close>

definition instance_ok :: "problem_instance \<Rightarrow> bool" where
  "instance_ok inst =
     (int (length (processing_time inst)) = nb_tasks inst
      \<and> (\<forall>(p, succs) \<in> set (successors inst).
            0 \<le> p \<and> p < nb_tasks inst \<and> (\<forall>s \<in> set succs. 0 \<le> s \<and> s < nb_tasks inst)))"

definition times_nonneg :: "problem_instance \<Rightarrow> bool" where
  "times_nonneg inst = (\<forall>t \<in> set (processing_time inst). 0 \<le> t)"

text \<open>The total processing time of the tasks an assignment puts on station \<open>st\<close>.\<close>

definition station_total :: "problem_instance \<Rightarrow> int list \<Rightarrow> int \<Rightarrow> int" where
  "station_total inst sol st =
     sum_list (map (\<lambda>i. processing_time inst ! i) (filter (\<lambda>i. sol ! i = st) [0..<length sol]))"

text \<open>Some recorded pair \<open>(p, s)\<close> has the predecessor on a later station.\<close>

definition precedence_violated :: "problem_instance \<Rightarrow> int list \<Rightarrow> bool" where
  "precedence_violated inst sol =
     (\<exists>(p, succs) \<in> set (successors inst). \<exists>s \<in> set succs. sol ! nat p > sol ! nat s)"

text \<open>
  The same total, by recursion along the assignment from task index \<open>i\<close>: the form the
  capacity loop is compared with.
\<close>

fun station_load :: "int list \<Rightarrow> nat \<Rightarrow> int list \<Rightarrow> int \<Rightarrow> int" where
  "station_load pt i [] s = 0"
| "station_load pt i (x # r) s = (if x = s then pt ! i else 0) + station_load pt (Suc i) r s"

subsection \<open>The layout of the token file\<close>

text \<open>
  Positions in the file: token 3 is the task count, token 6 the cycle time, tokens
  \<open>12 + 2k\<close> and \<open>13 + 2k\<close> the \<open>k\<close>-th pair (task number, time), then two more tokens;
  everything after position \<open>14 + 2 * nb_tasks\<close> is the trailing section.
\<close>

definition mandatory_fields_ok :: "string list \<Rightarrow> bool" where
  "mandatory_fields_ok tokens =
     (4 \<le> length tokens \<and>
      (case py_int (tokens ! 3) of
         None \<Rightarrow> False
       | Some n \<Rightarrow>
           14 + 2 * nat n \<le> length tokens
           \<and> py_int (tokens ! 6) \<noteq> None
           \<and> (\<forall>t \<in> set (take (2 * nat n) (drop 12 tokens)). py_int t \<noteq> None)))"



definition trailing_tokens :: "string list \<Rightarrow> string list" where
  "trailing_tokens tokens = drop (14 + 2 * nat (the (py_int (tokens ! 3)))) tokens"

text \<open>The pairs of the processing-time section, in the order the loop stores them.\<close>

fun time_pairs :: "nat \<Rightarrow> string list \<Rightarrow> (int \<times> int) list" where
  "time_pairs 0 ts = []"
| "time_pairs (Suc k) ts =
     (the (py_int (ts ! 0)) - 1, the (py_int (ts ! 1))) # time_pairs k (drop 2 ts)"

text \<open>
  A precedence token \<open>pred,succ\<close>: the text before the first comma and the text after
  it, both integers, and no second comma. Its pair is both numbers less one.
\<close>

definition pred_text :: "string \<Rightarrow> string" where
  "pred_text tok = takeWhile (\<lambda>c. c \<noteq> CHR '','') tok"

definition succ_text :: "string \<Rightarrow> string" where
  "succ_text tok = tl (dropWhile (\<lambda>c. c \<noteq> CHR '','') tok)"

definition well_formed_pair :: "string \<Rightarrow> bool" where
  "well_formed_pair tok =
     (CHR '','' \<notin> set (succ_text tok)
      \<and> py_int (pred_text tok) \<noteq> None \<and> py_int (succ_text tok) \<noteq> None)"

definition pair_of_token :: "string \<Rightarrow> int \<times> int" where
  "pair_of_token tok = (the (py_int (pred_text tok)) - 1, the (py_int (succ_text tok)) - 1)"

text \<open>
  The pairs of the tokens that contain a comma, in file order, and the successors
  recorded for one predecessor, in file order.
\<close>

definition recorded_pairs :: "string list \<Rightarrow> (int \<times> int) list" where
  "recorded_pairs ts = map pair_of_token (filter (\<lambda>tok. CHR '','' \<in> set tok) ts)"

definition recorded_successors :: "string list \<Rightarrow> int \<Rightarrow> int list" where
  "recorded_successors ts p = map snd (filter (\<lambda>pr. fst pr = p) (recorded_pairs ts))"

definition lookup_list :: "(int \<times> int list) list \<Rightarrow> int \<Rightarrow> int list" where
  "lookup_list d q = (case map_of d q of None \<Rightarrow> [] | Some l \<Rightarrow> l)"

subsection \<open>Sample data\<close>

text \<open>
  The three-task scenario of the specification; a four-task instance with six stations
  for the assignment \<open>[0, 2, 2, 5]\<close>; and a token file for the scenario whose pairs are
  listed out of order, with a stray token among the precedence pairs.
\<close>

definition scenario :: problem_instance where
  "scenario = \<lparr>nb_tasks = 3, max_nb_stations = 3, cycle_time = 10,
                processing_time = [4, 5, 3], successors = [(0, [2])]\<rparr>"

definition four_tasks :: problem_instance where
  "four_tasks = \<lparr>nb_tasks = 4, max_nb_stations = 6, cycle_time = 10,
                  processing_time = [4, 5, 3, 2], successors = [(0, [2])]\<rparr>"

definition example_tokens :: "string list" where
  "example_tokens =
     [''h1'', ''h2'', ''h3'', ''3'', ''a'', ''b'', ''10'', ''c1'', ''c2'', ''c3'', ''c4'', ''c5'',
      ''3'', ''3'', ''1'', ''4'', ''2'', ''5'', ''x'', ''y'',
      ''1,3'', ''junk'', ''1,2'', ''2,3'']"

text \<open>
  The instance with \<open>n\<close> tasks of time 0, no precedence and \<open>n\<close> stations, and the
  assignment that puts task \<open>i\<close> on station \<open>i\<close>.
\<close>

definition one_task_per_station :: "nat \<Rightarrow> problem_instance" where
  "one_task_per_station n =
     \<lparr>nb_tasks = int n, max_nb_stations = int n, cycle_time = 1,
      processing_time = replicate n 0, successors = []\<rparr>"

definition identity_assignment :: "nat \<Rightarrow> pyval" where
  "identity_assignment n = PyList (map (\<lambda>i. PyInt (int i)) [0..<n])"

section \<open>The checks of evaluate\_solution\<close>

subsection \<open>Station totals and the capacity loop\<close>

lemma station_load_sum:
  "station_load pt i rest s =
     sum_list (map (\<lambda>k. pt ! (i + k)) (filter (\<lambda>k. rest ! k = s) [0..<length rest]))"
proof (induction rest arbitrary: i)
  case Nil
  show ?case by simp
next
  case (Cons x r)
  have upt: "[0..<length (x # r)] = 0 # map Suc [0..<length r]"
    by (simp add: upt_conv_Cons map_Suc_upt del: upt_Suc)
  show ?case
    unfolding upt by (simp add: Cons.IH filter_map comp_def)
qed

lemma station_total_load: "station_total inst sol st = station_load (processing_time inst) 0 sol st"
  by (simp add: station_total_def station_load_sum)

lemma station_load_notin: "s \<notin> set rest \<Longrightarrow> station_load pt i rest s = 0"
  by (induction rest arbitrary: i) auto

lemma station_load_nonneg:
  "\<forall>t \<in> set pt. 0 \<le> t \<Longrightarrow> i + length rest \<le> length pt \<Longrightarrow> 0 \<le> station_load pt i rest s"
  by (induction rest arbitrary: i) auto

text \<open>
  A station whose total exceeds the limit stops the loop: at the latest when its last
  task is added, the running total is the total. This needs no sign condition.
\<close>

lemma check_capacity_exceeds:
  assumes "i + length rest \<le> length (processing_time inst)"
    and "s \<in> set rest"
    and "station_get st s + station_load (processing_time inst) i rest s > cycle_time inst"
  shows "check_capacity inst st i rest = Inr False"
  using assms
proof (induction rest arbitrary: st i)
  case Nil
  then show ?case by simp
next
  case (Cons x r)
  let ?t = "station_get st x + processing_time inst ! i"
  show ?case
  proof (cases "?t > cycle_time inst")
    case True
    with Cons.prems show ?thesis by simp
  next
    case False
    have in_r: "s \<in> set r"
    proof (rule ccontr)
      assume "s \<notin> set r"
      with Cons.prems have "s = x" "station_load (processing_time inst) (Suc i) r s = 0"
        by (auto simp: station_load_notin)
      with Cons.prems(3) False show False by simp
    qed
    have "station_get (st(x \<mapsto> ?t)) s + station_load (processing_time inst) (Suc i) r s
          > cycle_time inst"
      using Cons.prems(3) by (auto simp: station_get_def split: if_splits)
    moreover have "Suc i + length r \<le> length (processing_time inst)"
      using Cons.prems(1) by simp
    ultimately have "check_capacity inst (st(x \<mapsto> ?t)) (Suc i) r = Inr False"
      using in_r by (intro Cons.IH)
    with False Cons.prems(1) show ?thesis by (simp add: Let_def)
  qed
qed

text \<open>
  With times that are not negative, running totals never exceed final totals, so the
  loop passes when every total is within the limit.
\<close>

lemma check_capacity_within:
  assumes "i + length rest \<le> length (processing_time inst)"
    and "\<forall>t \<in> set (processing_time inst). 0 \<le> t"
    and "\<forall>s \<in> set rest. station_get st s + station_load (processing_time inst) i rest s \<le> cycle_time inst"
  shows "check_capacity inst st i rest = Inr True"
  using assms
proof (induction rest arbitrary: st i)
  case Nil
  then show ?case by simp
next
  case (Cons x r)
  let ?pt = "processing_time inst"
  let ?t = "station_get st x + ?pt ! i"
  have nn: "0 \<le> station_load ?pt (Suc i) r x"
    using Cons.prems(1,2) by (intro station_load_nonneg) auto
  from Cons.prems(3) have "station_get st x + (?pt ! i + station_load ?pt (Suc i) r x) \<le> cycle_time inst"
    by simp
  with nn have le: "?t \<le> cycle_time inst" by linarith
  have "\<forall>s \<in> set r. station_get (st(x \<mapsto> ?t)) s + station_load ?pt (Suc i) r s \<le> cycle_time inst"
    using Cons.prems(3) by (auto simp: station_get_def)
  moreover have "Suc i + length r \<le> length (processing_time inst)"
    using Cons.prems(1) by simp
  ultimately have "check_capacity inst (st(x \<mapsto> ?t)) (Suc i) r = Inr True"
    using Cons.prems(2) by (intro Cons.IH)
  with le Cons.prems(1) show ?case by (simp add: Let_def)
qed

lemma check_capacity_no_raise:
  "i + length rest \<le> length (processing_time inst) \<Longrightarrow> \<exists>b. check_capacity inst st i rest = Inr b"
  by (induction rest arbitrary: st i) (auto simp: Let_def)

subsection \<open>The precedence loops\<close>

lemma py_index_in_range:
  "0 \<le> i \<Longrightarrow> i < int (length xs) \<Longrightarrow> py_index xs i = Inr (xs ! nat i)"
  by (simp add: py_index_def)

lemma check_succs_in_range:
  assumes "0 \<le> p" "p < int (length sol)" "\<forall>s \<in> set succs. 0 \<le> s \<and> s < int (length sol)"
  shows "check_succs sol p succs = Inr (\<forall>s \<in> set succs. sol ! nat p \<le> sol ! nat s)"
  using assms by (induction succs) (auto simp: py_index_in_range)

lemma check_precedence_in_range:
  assumes "\<forall>(p, succs) \<in> set sc. 0 \<le> p \<and> p < int (length sol)
             \<and> (\<forall>s \<in> set succs. 0 \<le> s \<and> s < int (length sol))"
  shows "check_precedence sol sc
         = Inr (\<forall>(p, succs) \<in> set sc. \<forall>s \<in> set succs. sol ! nat p \<le> sol ! nat s)"
  using assms
proof (induction sc)
  case Nil
  show ?case by simp
next
  case (Cons a sc)
  obtain p succs where a: "a = (p, succs)" by (cases a)
  from Cons.prems a have r: "0 \<le> p" "p < int (length sol)"
    "\<forall>s \<in> set succs. 0 \<le> s \<and> s < int (length sol)" by auto
  from Cons.prems have "check_precedence sol sc
         = Inr (\<forall>(p, succs) \<in> set sc. \<forall>s \<in> set succs. sol ! nat p \<le> sol ! nat s)"
    by (intro Cons.IH) auto
  then show ?case
    by (auto simp: a check_succs_in_range[OF r] split: bool.splits)
qed

subsection \<open>The checks on an instance that meets its invariants\<close>

lemma evaluate_solution_unfold:
  assumes "seq_items solution = Some xs" "int (length xs) = nb_tasks inst"
    "\<forall>s \<in> set xs. valid_station inst s"
  shows "evaluate_solution inst solution =
     (case check_capacity inst Map.empty 0 (map int_of xs) of
        Inl e \<Rightarrow> Inl e
      | Inr False \<Rightarrow> Inr (PyFloat PENALTY)
      | Inr True \<Rightarrow>
          (case check_precedence (map int_of xs) (successors inst) of
             Inl e \<Rightarrow> Inl e
           | Inr False \<Rightarrow> Inr (PyFloat PENALTY)
           | Inr True \<Rightarrow> Inr (PyInt (num_stations_used (map int_of xs)))))"
  using assms by (simp add: evaluate_solution_def Let_def)

lemma check_precedence_instance:
  assumes "instance_ok inst" "int (length sol) = nb_tasks inst"
  shows "check_precedence sol (successors inst) = Inr (\<not> precedence_violated inst sol)"
proof -
  have "check_precedence sol (successors inst)
         = Inr (\<forall>(p, succs) \<in> set (successors inst). \<forall>s \<in> set succs. sol ! nat p \<le> sol ! nat s)"
    using assms by (intro check_precedence_in_range) (auto simp: instance_ok_def)
  also have "(\<forall>(p, succs) \<in> set (successors inst). \<forall>s \<in> set succs. sol ! nat p \<le> sol ! nat s)
         = (\<not> precedence_violated inst sol)"
    by (fastforce simp: precedence_violated_def)
  finally show ?thesis .
qed

lemma check_capacity_instance_exceeds:
  assumes "instance_ok inst" "int (length sol) = nb_tasks inst"
    "st \<in> set sol" "station_total inst sol st > cycle_time inst"
  shows "check_capacity inst Map.empty 0 sol = Inr False"
proof (rule check_capacity_exceeds)
  show "0 + length sol \<le> length (processing_time inst)"
    using assms(1,2) by (simp add: instance_ok_def)
  show "st \<in> set sol" by fact
  show "cycle_time inst < station_get Map.empty st + station_load (processing_time inst) 0 sol st"
    using assms(4) by (simp add: station_total_load station_get_def)
qed

lemma check_capacity_instance_within:
  assumes "instance_ok inst" "int (length sol) = nb_tasks inst" "times_nonneg inst"
    "\<forall>st \<in> set sol. station_total inst sol st \<le> cycle_time inst"
  shows "check_capacity inst Map.empty 0 sol = Inr True"
proof (rule check_capacity_within)
  show "0 + length sol \<le> length (processing_time inst)"
    using assms(1,2) by (simp add: instance_ok_def)
  show "\<forall>t \<in> set (processing_time inst). 0 \<le> t"
    using assms(3) by (simp add: times_nonneg_def)
  show "\<forall>s \<in> set sol. station_get Map.empty s + station_load (processing_time inst) 0 sol s
          \<le> cycle_time inst"
    using assms(4) by (simp add: station_total_load station_get_def)
qed

lemma check_capacity_instance_no_raise:
  assumes "instance_ok inst" "int (length sol) = nb_tasks inst"
  shows "\<exists>b. check_capacity inst Map.empty 0 sol = Inr b"
  using assms by (intro check_capacity_no_raise) (simp add: instance_ok_def)

lemma num_stations_used_card: "num_stations_used (map f xs) = int (card (f ` set xs))"
  by (simp add: num_stations_used_def length_remdups_card_conv)

lemma num_stations_used_bounds:
  "num_stations_used sol \<le> int (length sol)" "sol \<noteq> [] \<Longrightarrow> 1 \<le> num_stations_used sol"
proof -
  show "num_stations_used sol \<le> int (length sol)"
    by (simp add: num_stations_used_def)
  assume "sol \<noteq> []"
  then have "length (remdups sol) \<noteq> 0" by simp
  then have "0 < length (remdups sol)" by (rule neq0_conv[THEN iffD1])
  then show "1 \<le> num_stations_used sol" unfolding num_stations_used_def by linarith
qed

lemma scenario_ok: "instance_ok scenario" "times_nonneg scenario"
  by (simp_all add: instance_ok_def times_nonneg_def scenario_def)

lemma four_tasks_ok: "instance_ok four_tasks" "times_nonneg four_tasks"
  by (simp_all add: instance_ok_def times_nonneg_def four_tasks_def)

lemma nb_tasks_one_task_per_station: "nb_tasks (one_task_per_station n) = int n"
  by (simp add: one_task_per_station_def)

subsection \<open>What the invariants are needed for\<close>

text \<open>
  The constructor accepts any values. With fewer processing times than tasks the
  capacity loop raises \<open>IndexError\<close>; with a negative processing time a running total
  can pass the limit although the station's final total (here 11 - 1 = 10) does not.
\<close>

lemma evaluate_solution_short_processing_time:
  "evaluate_solution \<lparr>nb_tasks = 1, max_nb_stations = 1, cycle_time = 1,
                       processing_time = [], successors = []\<rparr> (PyList [PyInt 0])
     = Inl IndexError"
  by (simp add: evaluate_solution_def valid_station_def)

lemma evaluate_solution_negative_time:
  "evaluate_solution \<lparr>nb_tasks = 2, max_nb_stations = 2, cycle_time = 10,
                       processing_time = [11, - 1], successors = []\<rparr>
     (PyList [PyInt 0, PyInt 0]) = Inr (PyFloat PENALTY)"
  by (simp add: evaluate_solution_def valid_station_def station_get_def)

section \<open>Properties of evaluate\_solution\<close>

text \<open>
  Claim C1. On an instance that meets the invariants of the data model, an assignment
  that is a list or tuple of length \<open>nb_tasks\<close>, whose entries all pass the
  station-index check, with every station total within \<open>cycle_time\<close> and no recorded
  precedence pair out of order, is scored with the number of distinct station indices
  it uses: the cardinality of the set of its entries, read as integers.
\<close>

theorem evaluate_solution_counts_distinct_stations:
  assumes "instance_ok inst" "times_nonneg inst"
    and "seq_items solution = Some xs" "int (length xs) = nb_tasks inst"
    and "\<forall>s \<in> set xs. valid_station inst s"
    and "\<forall>st \<in> set (map int_of xs). station_total inst (map int_of xs) st \<le> cycle_time inst"
    and "\<not> precedence_violated inst (map int_of xs)"
  shows "evaluate_solution inst solution = Inr (PyInt (int (card (int_of ` set xs))))"
proof -
  have len: "int (length (map int_of xs)) = nb_tasks inst" using assms(4) by simp
  have cap: "check_capacity inst Map.empty 0 (map int_of xs) = Inr True"
    using assms(1) len assms(2,6) by (rule check_capacity_instance_within)
  have prec: "check_precedence (map int_of xs) (successors inst) = Inr True"
    using check_precedence_instance[OF assms(1) len] assms(7) by simp
  show ?thesis
    by (simp add: evaluate_solution_unfold[OF assms(3,4,5)] cap prec num_stations_used_card)
qed

text \<open>
  The assignment \<open>[0, 2, 2, 5]\<close> of four tasks scores 3: not 6, the highest index plus
  one and here also \<open>max_nb_stations\<close>, and not 4, the task count.
\<close>

theorem evaluate_solution_counts_distinct_stations_witness:
  "instance_ok four_tasks \<and> times_nonneg four_tasks
   \<and> seq_items (PyList [PyInt 0, PyInt 2, PyInt 2, PyInt 5]) = Some [PyInt 0, PyInt 2, PyInt 2, PyInt 5]
   \<and> int (length [PyInt 0, PyInt 2, PyInt 2, PyInt 5]) = nb_tasks four_tasks
   \<and> list_all (valid_station four_tasks) [PyInt 0, PyInt 2, PyInt 2, PyInt 5]
   \<and> list_all (\<lambda>st. station_total four_tasks (map int_of [PyInt 0, PyInt 2, PyInt 2, PyInt 5]) st
                     \<le> cycle_time four_tasks)
        (map int_of [PyInt 0, PyInt 2, PyInt 2, PyInt 5])
   \<and> \<not> precedence_violated four_tasks (map int_of [PyInt 0, PyInt 2, PyInt 2, PyInt 5])
   \<and> evaluate_solution four_tasks (PyList [PyInt 0, PyInt 2, PyInt 2, PyInt 5]) = Inr (PyInt 3)"
proof -
  let ?xs = "[PyInt 0, PyInt 2, PyInt 2, PyInt 5]"
  have h3: "seq_items (PyList ?xs) = Some ?xs" by simp
  have h4: "int (length ?xs) = nb_tasks four_tasks" by (simp add: four_tasks_def)
  have h5: "\<forall>s \<in> set ?xs. valid_station four_tasks s"
    by (simp add: valid_station_def four_tasks_def)
  have h6: "\<forall>st \<in> set (map int_of ?xs). station_total four_tasks (map int_of ?xs) st
              \<le> cycle_time four_tasks"
    by (simp add: station_total_def four_tasks_def)
  have h7: "\<not> precedence_violated four_tasks (map int_of ?xs)"
    by (simp add: precedence_violated_def four_tasks_def)
  have "evaluate_solution four_tasks (PyList ?xs) = Inr (PyInt (int (card (int_of ` set ?xs))))"
    using four_tasks_ok h3 h4 h5 h6 h7 by (rule evaluate_solution_counts_distinct_stations)
  then have "evaluate_solution four_tasks (PyList ?xs) = Inr (PyInt 3)" by simp
  with four_tasks_ok h3 h4 h5 h6 h7 show ?thesis
    unfolding list_all_iff by blast
qed

text \<open>
  Claim C2. On an instance that meets the invariants of the data model, a well-shaped
  assignment whose entries all pass the station-index check and that puts some recorded
  predecessor \<open>p\<close> on a later station than one of its successors \<open>s\<close> is scored with
  the penalty.
\<close>

theorem evaluate_solution_precedence_penalty:
  assumes "instance_ok inst"
    and "seq_items solution = Some xs" "int (length xs) = nb_tasks inst"
    and "\<forall>s \<in> set xs. valid_station inst s"
    and "(p, succs) \<in> set (successors inst)" "s \<in> set succs"
    and "int_of (xs ! nat p) > int_of (xs ! nat s)"
  shows "evaluate_solution inst solution = Inr (PyFloat PENALTY)"
proof -
  let ?sol = "map int_of xs"
  have len: "int (length ?sol) = nb_tasks inst" using assms(3) by simp
  from assms(1,5,6) have rng: "0 \<le> p" "p < nb_tasks inst" "0 \<le> s" "s < nb_tasks inst"
    by (auto simp: instance_ok_def)
  with assms(3,7) have "?sol ! nat p > ?sol ! nat s" by simp
  with assms(5,6) have "precedence_violated inst ?sol"
    unfolding precedence_violated_def by blast
  then have prec: "check_precedence ?sol (successors inst) = Inr False"
    using check_precedence_instance[OF assms(1) len] by simp
  obtain b where cap: "check_capacity inst Map.empty 0 ?sol = Inr b"
    using check_capacity_instance_no_raise[OF assms(1) len] by blast
  show ?thesis
    by (cases b) (simp_all add: evaluate_solution_unfold[OF assms(2,3,4)] cap prec)
qed

text \<open>The scenario's assignment \<open>[1, 0, 0]\<close>: task 0 precedes task 2 and sits later.\<close>

theorem evaluate_solution_precedence_penalty_witness:
  "instance_ok scenario
   \<and> seq_items (PyList [PyInt 1, PyInt 0, PyInt 0]) = Some [PyInt 1, PyInt 0, PyInt 0]
   \<and> int (length [PyInt 1, PyInt 0, PyInt 0]) = nb_tasks scenario
   \<and> list_all (valid_station scenario) [PyInt 1, PyInt 0, PyInt 0]
   \<and> (0, [2]) \<in> set (successors scenario) \<and> (2::int) \<in> set [2]
   \<and> int_of ([PyInt 1, PyInt 0, PyInt 0] ! nat 0) > int_of ([PyInt 1, PyInt 0, PyInt 0] ! nat 2)
   \<and> evaluate_solution scenario (PyList [PyInt 1, PyInt 0, PyInt 0]) = Inr (PyFloat PENALTY)"
proof -
  let ?xs = "[PyInt 1, PyInt 0, PyInt 0]"
  have h2: "seq_items (PyList ?xs) = Some ?xs" by simp
  have h3: "int (length ?xs) = nb_tasks scenario" by (simp add: scenario_def)
  have h4: "\<forall>s \<in> set ?xs. valid_station scenario s"
    by (simp add: valid_station_def scenario_def)
  have h5: "(0, [2]) \<in> set (successors scenario)" by (simp add: scenario_def)
  have h6: "(2::int) \<in> set [2]" by simp
  have h7: "int_of (?xs ! nat 0) > int_of (?xs ! nat 2)" by simp
  have "evaluate_solution scenario (PyList ?xs) = Inr (PyFloat PENALTY)"
    using scenario_ok(1) h2 h3 h4 h5 h6 h7 by (rule evaluate_solution_precedence_penalty)
  with scenario_ok(1) h2 h3 h4 h5 h6 h7 show ?thesis
    unfolding list_all_iff by blast
qed

text \<open>
  Claim C3. On an instance that meets the invariants of the data model, processing
  times not negative among them, a well-shaped assignment whose entries all pass the
  station-index check is scored with the penalty exactly when some station's total is
  strictly greater than \<open>cycle_time\<close> or some precedence pair is out of order. So a
  total that equals \<open>cycle_time\<close> does not cause a penalty, and a total above it,
  by any amount, does.
\<close>

theorem evaluate_solution_capacity_boundary:
  assumes "instance_ok inst" "times_nonneg inst"
    and "seq_items solution = Some xs" "int (length xs) = nb_tasks inst"
    and "\<forall>s \<in> set xs. valid_station inst s"
  shows "evaluate_solution inst solution = Inr (PyFloat PENALTY)
         \<longleftrightarrow> (\<exists>st \<in> set (map int_of xs). station_total inst (map int_of xs) st > cycle_time inst)
              \<or> precedence_violated inst (map int_of xs)"
proof -
  let ?sol = "map int_of xs"
  let ?over = "\<exists>st \<in> set ?sol. station_total inst ?sol st > cycle_time inst"
  have len: "int (length ?sol) = nb_tasks inst" using assms(4) by simp
  note unf = evaluate_solution_unfold[OF assms(3,4,5)]
  note prec = check_precedence_instance[OF assms(1) len]
  show ?thesis
  proof (cases ?over)
    case True
    then obtain st where "st \<in> set ?sol" "station_total inst ?sol st > cycle_time inst"
      by blast
    then have "check_capacity inst Map.empty 0 ?sol = Inr False"
      using check_capacity_instance_exceeds[OF assms(1) len] by blast
    then show ?thesis using True by (simp add: unf)
  next
    case False
    then have "\<forall>st \<in> set ?sol. station_total inst ?sol st \<le> cycle_time inst"
      by (auto simp: not_less)
    then have "check_capacity inst Map.empty 0 ?sol = Inr True"
      using check_capacity_instance_within[OF assms(1) len assms(2)] by blast
    then show ?thesis using False
      by (cases "precedence_violated inst ?sol") (simp_all add: unf prec)
  qed
qed

text \<open>
  The scenario with \<open>cycle_time = 9\<close>: the assignment \<open>[0, 0, 1]\<close> fills station 0
  exactly (4 + 5) and is scored 2; with \<open>cycle_time = 8\<close> the same assignment is
  scored with the penalty.
\<close>

theorem evaluate_solution_capacity_boundary_witness:
  "instance_ok (scenario\<lparr>cycle_time := 9\<rparr>) \<and> times_nonneg (scenario\<lparr>cycle_time := 9\<rparr>)
   \<and> seq_items (PyList [PyInt 0, PyInt 0, PyInt 1]) = Some [PyInt 0, PyInt 0, PyInt 1]
   \<and> int (length [PyInt 0, PyInt 0, PyInt 1]) = nb_tasks (scenario\<lparr>cycle_time := 9\<rparr>)
   \<and> list_all (valid_station (scenario\<lparr>cycle_time := 9\<rparr>)) [PyInt 0, PyInt 0, PyInt 1]
   \<and> station_total (scenario\<lparr>cycle_time := 9\<rparr>) (map int_of [PyInt 0, PyInt 0, PyInt 1]) 0
       = cycle_time (scenario\<lparr>cycle_time := 9\<rparr>)
   \<and> evaluate_solution (scenario\<lparr>cycle_time := 9\<rparr>) (PyList [PyInt 0, PyInt 0, PyInt 1])
       \<noteq> Inr (PyFloat PENALTY)
   \<and> evaluate_solution (scenario\<lparr>cycle_time := 8\<rparr>) (PyList [PyInt 0, PyInt 0, PyInt 1])
       = Inr (PyFloat PENALTY)"
proof -
  let ?xs = "[PyInt 0, PyInt 0, PyInt 1]"
  let ?I = "scenario\<lparr>cycle_time := 9\<rparr>"
  let ?J = "scenario\<lparr>cycle_time := 8\<rparr>"
  have i1: "instance_ok ?I" "times_nonneg ?I"
    by (simp_all add: instance_ok_def times_nonneg_def scenario_def)
  have j1: "instance_ok ?J" "times_nonneg ?J"
    by (simp_all add: instance_ok_def times_nonneg_def scenario_def)
  have h3: "seq_items (PyList ?xs) = Some ?xs" by simp
  have i4: "int (length ?xs) = nb_tasks ?I" by (simp add: scenario_def)
  have j4: "int (length ?xs) = nb_tasks ?J" by (simp add: scenario_def)
  have i5: "\<forall>s \<in> set ?xs. valid_station ?I s" by (simp add: valid_station_def scenario_def)
  have j5: "\<forall>s \<in> set ?xs. valid_station ?J s" by (simp add: valid_station_def scenario_def)
  have eq: "station_total ?I (map int_of ?xs) 0 = cycle_time ?I"
    by (simp add: station_total_def scenario_def)
  have "(evaluate_solution ?I (PyList ?xs) = Inr (PyFloat PENALTY))
        = ((\<exists>st \<in> set (map int_of ?xs). station_total ?I (map int_of ?xs) st > cycle_time ?I)
           \<or> precedence_violated ?I (map int_of ?xs))"
    using i1 h3 i4 i5 by (rule evaluate_solution_capacity_boundary)
  then have r1: "evaluate_solution ?I (PyList ?xs) \<noteq> Inr (PyFloat PENALTY)"
    by (simp add: station_total_def precedence_violated_def scenario_def)
  have "(evaluate_solution ?J (PyList ?xs) = Inr (PyFloat PENALTY))
        = ((\<exists>st \<in> set (map int_of ?xs). station_total ?J (map int_of ?xs) st > cycle_time ?J)
           \<or> precedence_violated ?J (map int_of ?xs))"
    using j1 h3 j4 j5 by (rule evaluate_solution_capacity_boundary)
  then have r2: "evaluate_solution ?J (PyList ?xs) = Inr (PyFloat PENALTY)"
    by (simp add: station_total_def precedence_violated_def scenario_def)
  from i1 h3 i4 i5 eq r1 r2 show ?thesis
    unfolding list_all_iff by blast
qed

text \<open>
  Claim C4. For every instance, a list or tuple of length \<open>nb_tasks\<close> with an entry
  that is not an \<open>int\<close> instance, or is negative, or is at least \<open>max_nb_stations\<close>,
  is scored with the penalty; nothing is raised, and the result is the same whatever
  the processing times, the cycle time and the successors are.
\<close>

theorem evaluate_solution_invalid_station_penalty:
  assumes "seq_items solution = Some xs" "int (length xs) = nb_tasks inst"
    and "\<exists>s \<in> set xs. \<not> isinstance_int s \<or> int_of s < 0 \<or> int_of s \<ge> max_nb_stations inst"
  shows "evaluate_solution inst solution = Inr (PyFloat PENALTY)
       \<and> (\<forall>pt ct sc. evaluate_solution
              (inst\<lparr>cycle_time := ct, processing_time := pt, successors := sc\<rparr>) solution
            = Inr (PyFloat PENALTY))"
  using assms by (auto simp: evaluate_solution_def valid_station_def)

theorem evaluate_solution_invalid_station_penalty_witness:
  "seq_items (PyTuple [PyInt 0, PyStr ''one'', PyInt 3]) = Some [PyInt 0, PyStr ''one'', PyInt 3]
   \<and> int (length [PyInt 0, PyStr ''one'', PyInt 3]) = nb_tasks scenario
   \<and> (\<exists>s \<in> set [PyInt 0, PyStr ''one'', PyInt 3].
         \<not> isinstance_int s \<or> int_of s < 0 \<or> int_of s \<ge> max_nb_stations scenario)
   \<and> evaluate_solution scenario (PyTuple [PyInt 0, PyStr ''one'', PyInt 3]) = Inr (PyFloat PENALTY)
   \<and> evaluate_solution (scenario\<lparr>cycle_time := 0, processing_time := [], successors := [(7, [9])]\<rparr>)
        (PyTuple [PyInt 0, PyStr ''one'', PyInt 3]) = Inr (PyFloat PENALTY)"
proof -
  let ?xs = "[PyInt 0, PyStr ''one'', PyInt 3]"
  have h1: "seq_items (PyTuple ?xs) = Some ?xs" by simp
  have h2: "int (length ?xs) = nb_tasks scenario" by (simp add: scenario_def)
  have h3: "\<exists>s \<in> set ?xs. \<not> isinstance_int s \<or> int_of s < 0 \<or> int_of s \<ge> max_nb_stations scenario"
    by simp
  from evaluate_solution_invalid_station_penalty[OF h1 h2 h3]
  have "evaluate_solution scenario (PyTuple ?xs) = Inr (PyFloat PENALTY)"
    and "evaluate_solution (scenario\<lparr>cycle_time := 0, processing_time := [], successors := [(7, [9])]\<rparr>)
           (PyTuple ?xs) = Inr (PyFloat PENALTY)"
    by blast+
  with h1 h2 h3 show ?thesis by blast
qed

text \<open>
  Claim C5. An input that is not a list or tuple, or whose length differs from
  \<open>nb_tasks\<close>, makes \<open>evaluate_solution\<close> raise the \<open>ValueError\<close> of line 106, for every
  instance; it returns neither the penalty nor a score.
\<close>

theorem evaluate_solution_shape_error:
  "seq_items solution = None \<or> (\<exists>xs. seq_items solution = Some xs \<and> int (length xs) \<noteq> nb_tasks inst)
   \<Longrightarrow> evaluate_solution inst solution = Inl ValueError"
  by (auto simp: evaluate_solution_def)

text \<open>An assignment of length \<open>nb_tasks - 1\<close> for the scenario.\<close>

theorem evaluate_solution_shape_error_witness:
  "(seq_items (PyList [PyInt 0, PyInt 0]) = None
     \<or> (\<exists>xs. seq_items (PyList [PyInt 0, PyInt 0]) = Some xs \<and> int (length xs) \<noteq> nb_tasks scenario))
   \<and> evaluate_solution scenario (PyList [PyInt 0, PyInt 0]) = Inl ValueError"
proof -
  have h: "seq_items (PyList [PyInt 0, PyInt 0]) = None
     \<or> (\<exists>xs. seq_items (PyList [PyInt 0, PyInt 0]) = Some xs \<and> int (length xs) \<noteq> nb_tasks scenario)"
    by (simp add: scenario_def)
  from evaluate_solution_shape_error[OF h] h show ?thesis by blast
qed

text \<open>
  Claim C6, as the code has it. The penalty is the constant \<open>1e9\<close>, whatever the
  instance. For an instance with fewer than \<open>10^9\<close> tasks it is strictly greater than
  \<open>nb_tasks\<close>, and every integer score \<open>evaluate_solution\<close> returns is at most
  \<open>nb_tasks\<close>, hence strictly below the penalty.
\<close>

theorem penalty_dominates_below_1e9:
  assumes "nb_tasks inst < 1000000000"
  shows "PENALTY > real_of_int (nb_tasks inst)
       \<and> (\<forall>solution k. evaluate_solution inst solution = Inr (PyInt k)
              \<longrightarrow> k \<le> nb_tasks inst \<and> real_of_int k < PENALTY)"
proof -
  have "k \<le> nb_tasks inst" if "evaluate_solution inst solution = Inr (PyInt k)" for solution k
  proof -
    from that obtain xs where xs: "seq_items solution = Some xs" "int (length xs) = nb_tasks inst"
      and k: "k = num_stations_used (map int_of xs)"
      by (auto simp: evaluate_solution_def Let_def split: option.splits if_splits sum.splits bool.splits)
    show ?thesis using num_stations_used_bounds(1)[of "map int_of xs"] xs k by simp
  qed
  with assms show ?thesis by (fastforce simp: PENALTY_def)
qed

theorem penalty_dominates_below_1e9_witness:
  "nb_tasks scenario < 1000000000
   \<and> PENALTY > real_of_int (nb_tasks scenario)
   \<and> evaluate_solution scenario (PyList [PyInt 0, PyInt 0, PyInt 1]) = Inr (PyInt 2)
   \<and> (2::int) \<le> nb_tasks scenario \<and> real_of_int 2 < PENALTY"
proof -
  have h: "nb_tasks scenario < 1000000000" by (simp add: scenario_def)
  have e: "evaluate_solution scenario (PyList [PyInt 0, PyInt 0, PyInt 1]) = Inr (PyInt 2)"
    by (simp add: evaluate_solution_def scenario_def valid_station_def station_get_def
          py_index_def num_stations_used_def)
  from penalty_dominates_below_1e9[OF h] e
  have "PENALTY > real_of_int (nb_tasks scenario)"
    and "(2::int) \<le> nb_tasks scenario \<and> real_of_int 2 < PENALTY"
    by blast+
  with h e show ?thesis by blast
qed

text \<open>
  The claim as stated, for any instance, fails at an instance with \<open>10^9\<close> tasks: the
  penalty is not strictly greater than its task count.
\<close>

theorem penalty_dominance_counterexample:
  "\<not> PENALTY > real_of_int (nb_tasks (one_task_per_station 1000000000))"
  unfolding nb_tasks_one_task_per_station by (simp add: PENALTY_def)

text \<open>
  That instance meets the invariants of the data model, and its assignment of one task
  per station is feasible and scores \<open>10^9\<close>, a score the penalty does not exceed.
\<close>

lemma station_load_zero:
  "i + length rest \<le> n \<Longrightarrow> station_load (replicate n 0) i rest s = 0"
  by (induction rest arbitrary: i) auto

lemma identity_assignment_score:
  "evaluate_solution (one_task_per_station n) (identity_assignment n) = Inr (PyInt (int n))"
proof -
  let ?I = "one_task_per_station n"
  let ?xs = "map (\<lambda>i. PyInt (int i)) [0..<n]"
  have sol: "map int_of ?xs = map int [0..<n]" by (simp add: comp_def)
  have ok: "instance_ok ?I" "times_nonneg ?I"
    by (simp_all add: instance_ok_def times_nonneg_def one_task_per_station_def)
  have len: "int (length (map int [0..<n])) = nb_tasks ?I"
    by (simp add: one_task_per_station_def)
  have "\<forall>st \<in> set (map int [0..<n]). station_total ?I (map int [0..<n]) st \<le> cycle_time ?I"
    by (simp add: station_total_load station_load_zero one_task_per_station_def)
  then have cap: "check_capacity ?I Map.empty 0 (map int [0..<n]) = Inr True"
    using check_capacity_instance_within[OF ok(1) len ok(2)] by blast
  have "\<not> precedence_violated ?I (map int [0..<n])"
    by (simp add: precedence_violated_def one_task_per_station_def)
  then have prec: "check_precedence (map int [0..<n]) (successors ?I) = Inr True"
    using check_precedence_instance[OF ok(1) len] by simp
  have valid: "\<forall>s \<in> set ?xs. valid_station ?I s"
    by (auto simp: valid_station_def one_task_per_station_def)
  have "distinct (map int [0..<n])" by (simp add: distinct_map)
  then have used: "num_stations_used (map int [0..<n]) = int n"
    by (simp add: num_stations_used_def distinct_remdups_id)
  have si: "seq_items (PyList ?xs) = Some ?xs" by simp
  have l: "int (length ?xs) = nb_tasks ?I" by (simp add: one_task_per_station_def)
  have "evaluate_solution ?I (PyList ?xs) = Inr (PyInt (int n))"
    unfolding evaluate_solution_unfold[OF si l valid] sol cap prec used by simp
  then show ?thesis by (simp add: identity_assignment_def)
qed

lemma penalty_reached_by_feasible_score:
  "evaluate_solution (one_task_per_station 1000000000) (identity_assignment 1000000000)
     = Inr (PyInt 1000000000)"
  using identity_assignment_score[of 1000000000] by (simp only: of_nat_numeral)

lemma one_task_per_station_ok:
  "instance_ok (one_task_per_station n)" "times_nonneg (one_task_per_station n)"
  by (simp_all add: instance_ok_def times_nonneg_def one_task_per_station_def)

text \<open>
  Claim C10. On an instance whose \<open>processing_time\<close> has \<open>nb_tasks\<close> entries and
  whose successor indices are task indices, \<open>evaluate_solution\<close> applied to a list or
  tuple of length \<open>nb_tasks\<close> raises nothing: it returns the penalty or an integer that
  is at most \<open>nb_tasks\<close>, and at least 1 when the assignment is not empty.
\<close>

theorem evaluate_solution_never_raises:
  assumes "instance_ok inst"
    and "seq_items solution = Some xs" "int (length xs) = nb_tasks inst"
  shows "evaluate_solution inst solution = Inr (PyFloat PENALTY)
       \<or> (\<exists>k. evaluate_solution inst solution = Inr (PyInt k)
              \<and> k \<le> nb_tasks inst \<and> (xs \<noteq> [] \<longrightarrow> 1 \<le> k))"
proof (cases "\<forall>s \<in> set xs. valid_station inst s")
  case False
  with assms(2,3) show ?thesis by (auto simp: evaluate_solution_def)
next
  case True
  let ?sol = "map int_of xs"
  have len: "int (length ?sol) = nb_tasks inst" using assms(3) by simp
  obtain b where cap: "check_capacity inst Map.empty 0 ?sol = Inr b"
    using check_capacity_instance_no_raise[OF assms(1) len] by blast
  note prec = check_precedence_instance[OF assms(1) len]
  have "num_stations_used ?sol \<le> nb_tasks inst"
    using num_stations_used_bounds(1)[of ?sol] assms(3) by simp
  moreover have "xs \<noteq> [] \<longrightarrow> 1 \<le> num_stations_used ?sol"
    using num_stations_used_bounds(2)[of ?sol] by simp
  ultimately show ?thesis
    by (cases b; cases "precedence_violated inst ?sol")
       (simp_all add: evaluate_solution_unfold[OF assms(2,3) True] cap prec)
qed

theorem evaluate_solution_never_raises_witness:
  "instance_ok scenario
   \<and> seq_items (PyList [PyInt 0, PyInt 0, PyInt 1]) = Some [PyInt 0, PyInt 0, PyInt 1]
   \<and> int (length [PyInt 0, PyInt 0, PyInt 1]) = nb_tasks scenario
   \<and> [PyInt 0, PyInt 0, PyInt 1] \<noteq> []
   \<and> (evaluate_solution scenario (PyList [PyInt 0, PyInt 0, PyInt 1]) = Inr (PyFloat PENALTY)
       \<or> (\<exists>k. evaluate_solution scenario (PyList [PyInt 0, PyInt 0, PyInt 1]) = Inr (PyInt k)
              \<and> k \<le> nb_tasks scenario \<and> 1 \<le> k))"
proof -
  let ?xs = "[PyInt 0, PyInt 0, PyInt 1]"
  have h2: "seq_items (PyList ?xs) = Some ?xs" by simp
  have h3: "int (length ?xs) = nb_tasks scenario" by (simp add: scenario_def)
  have h4: "?xs \<noteq> []" by simp
  from evaluate_solution_never_raises[OF scenario_ok(1) h2 h3] h4
  have "evaluate_solution scenario (PyList ?xs) = Inr (PyFloat PENALTY)
       \<or> (\<exists>k. evaluate_solution scenario (PyList ?xs) = Inr (PyInt k)
              \<and> k \<le> nb_tasks scenario \<and> 1 \<le> k)"
    by blast
  with scenario_ok(1) h2 h3 h4 show ?thesis by blast
qed

section \<open>The phases of the loader\<close>

subsection \<open>Integer literals\<close>

lemmas py_int_eval =
  py_int_def strip_space_def is_space_def parse_decimal_def int_max_str_digits_def
  is_digit_def digit_val_def

text \<open>
  A literal with more digits than the limit is no integer for \<open>int\<close>, so a token
  \<open>pred,succ\<close> whose second part is that long is not a well-formed pair.
\<close>

lemma py_int_digit_limit:
  assumes "int_max_str_digits < n"
  shows "py_int (replicate n (CHR ''1'')) = None"
proof -
  from assms obtain m where n: "n = Suc m" by (cases n) simp_all
  have d: "is_digit (CHR ''1'')" "\<not> is_space (CHR ''1'')"
    by (simp_all add: is_digit_def is_space_def)
  have "strip_space (replicate n (CHR ''1'')) = replicate n (CHR ''1'')"
    by (simp add: strip_space_def n d(2) replicate_append_same)
  moreover have "parse_decimal (replicate n (CHR ''1'')) = None"
    using assms by (simp add: parse_decimal_def d(1))
  ultimately show ?thesis
    by (simp add: py_int_def n [symmetric] replicate_Suc [symmetric] del: replicate_Suc)
       (simp add: n)
qed

lemma over_limit_pair_not_well_formed:
  assumes "int_max_str_digits < n"
  shows "\<not> well_formed_pair (''1,'' @ replicate n (CHR ''1''))"
proof -
  have "succ_text (''1,'' @ replicate n (CHR ''1'')) = replicate n (CHR ''1'')"
    by (simp add: succ_text_def)
  then show ?thesis
    by (simp add: well_formed_pair_def py_int_digit_limit[OF assms])
qed

lemma skip_tokens_eq:
  "skip_tokens k ts = (if k \<le> length ts then Inr (drop k ts) else Inl StopIteration)"
proof (induction k arbitrary: ts)
  case 0
  show ?case by simp
next
  case (Suc k)
  show ?case by (cases ts) (simp_all add: Suc.IH)
qed

lemma skip_tokens_drop:
  "k \<le> length ts \<Longrightarrow> skip_tokens j (drop k ts)
     = (if j + k \<le> length ts then Inr (drop (j + k) ts) else Inl StopIteration)"
  by (auto simp: skip_tokens_eq)

lemma read_int_eq:
  "read_int ts =
     (case ts of
        [] \<Rightarrow> Inl StopIteration
      | t # r \<Rightarrow> (case py_int t of None \<Rightarrow> Inl ValueError | Some v \<Rightarrow> Inr (v, r)))"
  by (cases ts) (simp_all add: read_int_def)

lemma read_int_Inr:
  "read_int ts = Inr (v, r) \<longleftrightarrow> ts \<noteq> [] \<and> py_int (hd ts) = Some v \<and> r = tl ts"
  by (cases ts) (auto simp: read_int_def split: option.splits)

lemma read_int_Nil: "read_int [] = Inl StopIteration"
  by (simp add: read_int_def)

lemma read_int_drop:
  "read_int (drop k ts) =
     (if k < length ts then
        (case py_int (ts ! k) of None \<Rightarrow> Inl ValueError | Some v \<Rightarrow> Inr (v, drop (Suc k) ts))
      else Inl StopIteration)"
proof (cases "k < length ts")
  case True
  then have "drop k ts = ts ! k # drop (Suc k) ts" by (simp add: Cons_nth_drop_Suc)
  with True show ?thesis by (simp add: read_int_eq)
next
  case False
  then show ?thesis by (simp add: read_int_eq)
qed

text \<open>
  The loop over the pairs succeeds exactly when both tokens of every pair are there
  and are integers; it then leaves the tokens after the pairs and the dictionary filled
  in file order.
\<close>

lemma read_times_Inr:
  "read_times k d ts = Inr (d', r) \<longleftrightarrow>
     2 * k \<le> length ts \<and> (\<forall>t \<in> set (take (2 * k) ts). py_int t \<noteq> None)
     \<and> r = drop (2 * k) ts \<and> d' = fold (\<lambda>(a, t). dict_set a t) (time_pairs k ts) d"
proof (induction k arbitrary: d ts)
  case 0
  show ?case by auto
next
  case (Suc k)
  show ?case
  proof (cases ts)
    case Nil
    then show ?thesis by (simp add: read_int_eq)
  next
    case (Cons a ts1)
    note ts = Cons
    show ?thesis
    proof (cases ts1)
      case Nil
      with ts show ?thesis by (simp add: read_int_eq split: option.splits)
    next
      case (Cons b ts2)
      with ts have ts': "ts = a # b # ts2" by simp
      show ?thesis
      proof (cases "py_int a")
        case None
        then show ?thesis by (simp add: ts' read_int_eq)
      next
        case (Some x)
        note a = Some
        show ?thesis
        proof (cases "py_int b")
          case None
          then show ?thesis by (simp add: ts' a read_int_eq)
        next
          case (Some y)
          show ?thesis
            by (simp add: ts' a Some read_int_eq Suc.IH) 
        qed
      qed
    qed
  qed
qed

lemma read_times_errors:
  "read_times k d ts = Inl e \<Longrightarrow> e = StopIteration \<or> e = ValueError"
proof (induction k arbitrary: d ts)
  case 0
  then show ?case by simp
next
  case (Suc k)
  then show ?case
    by (auto simp: read_int_eq split: list.splits option.splits)
qed

lemma parse_pair_errors: "parse_pair tok = Inl e \<Longrightarrow> e = ValueError"
  by (auto simp: parse_pair_def split: list.splits option.splits)

lemma scan_successors_errors: "scan_successors d ts = Inl e \<Longrightarrow> e = ValueError"
proof (induction ts arbitrary: d)
  case Nil
  then show ?case by simp
next
  case (Cons tok ts)
  then show ?case
    by (auto split: if_splits sum.splits dest: parse_pair_errors)
qed

text \<open>The loader with every position written against the whole token list.\<close>

lemma load_unfold:
  "load_instance_from_tokens tokens =
     (if length tokens < 4 then Inl StopIteration
      else case py_int (tokens ! 3) of None \<Rightarrow> Inl ValueError | Some n \<Rightarrow>
        if length tokens < 7 then Inl StopIteration
        else case py_int (tokens ! 6) of None \<Rightarrow> Inl ValueError | Some c \<Rightarrow>
          if length tokens < 12 then Inl StopIteration
          else bind_exn (read_times (nat n) [] (drop 12 tokens)) (\<lambda>(d, ts6).
               bind_exn (skip_tokens 2 ts6) (\<lambda>ts7.
               bind_exn (scan_successors [] ts7) (\<lambda>sc.
                 Inr \<lparr>nb_tasks = n, max_nb_stations = n, cycle_time = c,
                      processing_time = map snd (sort_key fst d), successors = sc\<rparr>))))"
proof -
  have s3: "skip_tokens 3 tokens
              = (if 3 \<le> length tokens then Inr (drop 3 tokens) else Inl StopIteration)"
    by (simp add: skip_tokens_eq)
  show ?thesis
    unfolding load_instance_from_tokens_def s3
    by (auto simp: bind_exn_def skip_tokens_drop read_int_drop read_int_Nil split: option.splits)
qed

lemma load_errors:
  "load_instance_from_tokens tokens = Inl e \<Longrightarrow> e = StopIteration \<or> e = ValueError"
  unfolding load_unfold bind_exn_def
  by (auto simp: skip_tokens_eq
           split: sum.splits if_splits option.splits prod.splits
           dest: read_times_errors scan_successors_errors)

lemma load_Inr:
  "load_instance_from_tokens tokens = Inr inst \<longleftrightarrow>
     (\<exists>n c sc. 4 \<le> length tokens \<and> py_int (tokens ! 3) = Some n
        \<and> 14 + 2 * nat n \<le> length tokens
        \<and> py_int (tokens ! 6) = Some c
        \<and> (\<forall>t \<in> set (take (2 * nat n) (drop 12 tokens)). py_int t \<noteq> None)
        \<and> scan_successors [] (drop (14 + 2 * nat n) tokens) = Inr sc
        \<and> inst = \<lparr>nb_tasks = n, max_nb_stations = n, cycle_time = c,
             processing_time = map snd (sort_key fst
                (fold (\<lambda>(a, t). dict_set a t) (time_pairs (nat n) (drop 12 tokens)) [])),
             successors = sc\<rparr>)"
  (is "?L \<longleftrightarrow> ?R")
proof
  assume ?L
  then show ?R
    unfolding load_unfold bind_exn_def
    by (auto simp: skip_tokens_eq read_times_Inr add.commute
             split: sum.splits if_splits prod.splits option.splits)
next
  assume ?R
  then obtain n c sc where h: "4 \<le> length tokens" "py_int (tokens ! 3) = Some n"
      "14 + 2 * nat n \<le> length tokens" "py_int (tokens ! 6) = Some c"
      "\<forall>t \<in> set (take (2 * nat n) (drop 12 tokens)). py_int t \<noteq> None"
      "scan_successors [] (drop (14 + 2 * nat n) tokens) = Inr sc"
      "inst = \<lparr>nb_tasks = n, max_nb_stations = n, cycle_time = c,
             processing_time = map snd (sort_key fst
                (fold (\<lambda>(a, t). dict_set a t) (time_pairs (nat n) (drop 12 tokens)) [])),
             successors = sc\<rparr>"
    by blast
  have rt: "read_times (nat n) [] (drop 12 tokens)
             = Inr (fold (\<lambda>(a, t). dict_set a t) (time_pairs (nat n) (drop 12 tokens)) [],
                    drop (2 * nat n) (drop 12 tokens))"
    using h(3,5) by (simp add: read_times_Inr)
  have dd: "drop 2 (drop (2 * nat n) (drop 12 tokens)) = drop (14 + 2 * nat n) tokens"
    by (simp add: add.commute)
  show ?L
    unfolding load_unfold
    using h by (simp add: rt skip_tokens_eq dd bind_exn_def)
qed

subsection \<open>The processing-time dictionary and its sorted values\<close>











subsection \<open>Precedence tokens and the successor dictionary\<close>

lemma split_on_first:
  "split_on sep s =
     takeWhile (\<lambda>c. c \<noteq> sep) s
       # (if sep \<in> set s then split_on sep (tl (dropWhile (\<lambda>c. c \<noteq> sep) s)) else [])"
  by (induction s) auto

lemma split_on_no_sep: "sep \<notin> set s \<Longrightarrow> split_on sep s = [s]"
  by (subst split_on_first) auto

lemma split_on_Cons: "\<exists>u us. split_on sep s = u # us"
  by (subst split_on_first) simp

lemma split_on_two: "sep \<in> set s \<Longrightarrow> \<exists>w u us. split_on sep s = w # u # us"
  using split_on_Cons[of sep "tl (dropWhile (\<lambda>c. c \<noteq> sep) s)"]
  by (subst split_on_first) auto

text \<open>
  A token is turned into a pair exactly when it has a comma and is a well-formed
  precedence token; any other token with a comma raises \<open>ValueError\<close>.
\<close>

lemma parse_pair_Inr:
  "parse_pair tok = Inr pr \<longleftrightarrow>
     CHR '','' \<in> set tok \<and> well_formed_pair tok \<and> pr = pair_of_token tok"
proof (cases "CHR '','' \<in> set tok")
  case False
  then show ?thesis by (simp add: parse_pair_def split_on_no_sep)
next
  case True
  then have s: "split_on CHR '','' tok = pred_text tok # split_on CHR '','' (succ_text tok)"
    by (subst split_on_first) (simp add: pred_text_def succ_text_def)
  show ?thesis
  proof (cases "CHR '','' \<in> set (succ_text tok)")
    case False
    then show ?thesis
      using True
      by (auto simp: parse_pair_def s split_on_no_sep well_formed_pair_def pair_of_token_def
               split: option.splits)
  next
    case c2: True
    obtain w u us where "split_on CHR '','' (succ_text tok) = w # u # us"
      using split_on_two[OF c2] by blast
    then show ?thesis
      using c2 by (simp add: parse_pair_def s well_formed_pair_def)
  qed
qed

lemma scan_successors_well_formed:
  "\<forall>tok \<in> set ts. CHR '','' \<in> set tok \<longrightarrow> well_formed_pair tok \<Longrightarrow>
   scan_successors d ts = Inr (fold (\<lambda>(p, s). dict_append p s) (recorded_pairs ts) d)"
proof (induction ts arbitrary: d)
  case Nil
  show ?case by (simp add: recorded_pairs_def)
next
  case (Cons tok ts)
  then have IH: "\<And>d. scan_successors d ts
                  = Inr (fold (\<lambda>(p, s). dict_append p s) (recorded_pairs ts) d)"
    by simp
  show ?case
  proof (cases "CHR '','' \<in> set tok")
    case False
    then show ?thesis by (simp add: IH recorded_pairs_def)
  next
    case True
    with Cons.prems have "well_formed_pair tok" by simp
    with True have "parse_pair tok = Inr (pair_of_token tok)" by (simp add: parse_pair_Inr)
    then show ?thesis
      using True by (simp add: IH recorded_pairs_def split: prod.splits)
  qed
qed

lemma scan_successors_Inr_well_formed:
  "scan_successors d ts = Inr sc \<Longrightarrow>
   \<forall>tok \<in> set ts. CHR '','' \<in> set tok \<longrightarrow> well_formed_pair tok"
proof (induction ts arbitrary: d)
  case Nil
  show ?case by simp
next
  case (Cons tok ts)
  show ?case
  proof (cases "CHR '','' \<in> set tok")
    case False
    with Cons show ?thesis by auto
  next
    case True
    with Cons.prems obtain pr where pr: "parse_pair tok = Inr pr"
      and rest: "scan_successors (dict_append (fst pr) (snd pr) d) ts = Inr sc"
      by (auto split: sum.splits)
    from pr have "well_formed_pair tok" by (simp add: parse_pair_Inr)
    moreover from rest have "\<forall>tok \<in> set ts. CHR '','' \<in> set tok \<longrightarrow> well_formed_pair tok"
      by (rule Cons.IH)
    ultimately show ?thesis by simp
  qed
qed

lemma scan_successors_malformed:
  assumes "\<not> (\<forall>tok \<in> set ts. CHR '','' \<in> set tok \<longrightarrow> well_formed_pair tok)"
  shows "scan_successors d ts = Inl ValueError"
proof (cases "scan_successors d ts")
  case (Inl e)
  then show ?thesis using scan_successors_errors[OF Inl] by simp
next
  case (Inr sc)
  then show ?thesis using scan_successors_Inr_well_formed[OF Inr] assms by blast
qed

lemma load_trailing:
  assumes "mandatory_fields_ok tokens"
  shows "\<exists>n c pt. load_instance_from_tokens tokens =
           bind_exn (scan_successors [] (trailing_tokens tokens)) (\<lambda>sc.
             Inr \<lparr>nb_tasks = n, max_nb_stations = n, cycle_time = c,
                  processing_time = pt, successors = sc\<rparr>)"
proof -
  from assms obtain n c where h: "4 \<le> length tokens" "py_int (tokens ! 3) = Some n"
      "14 + 2 * nat n \<le> length tokens" "py_int (tokens ! 6) = Some c"
      "\<forall>t \<in> set (take (2 * nat n) (drop 12 tokens)). py_int t \<noteq> None"
    by (auto simp: mandatory_fields_ok_def split: option.splits)
  have rt: "read_times (nat n) [] (drop 12 tokens)
             = Inr (fold (\<lambda>(a, t). dict_set a t) (time_pairs (nat n) (drop 12 tokens)) [],
                    drop (2 * nat n) (drop 12 tokens))"
    using h(3,5) by (simp add: read_times_Inr)
  have tr: "trailing_tokens tokens = drop (14 + 2 * nat n) tokens"
    by (simp add: trailing_tokens_def h(2))
  have dd: "drop 2 (drop (2 * nat n) (drop 12 tokens)) = drop (14 + 2 * nat n) tokens"
    by (simp add: add.commute)
  have "load_instance_from_tokens tokens =
           bind_exn (scan_successors [] (trailing_tokens tokens)) (\<lambda>sc.
             Inr \<lparr>nb_tasks = n, max_nb_stations = n, cycle_time = c,
                  processing_time = map snd (sort_key fst
                    (fold (\<lambda>(a, t). dict_set a t) (time_pairs (nat n) (drop 12 tokens)) [])),
                  successors = sc\<rparr>)"
    unfolding load_unfold tr using h by (simp add: rt skip_tokens_eq dd bind_exn_def)
  then show ?thesis by blast
qed

lemma map_of_dict_append:
  "map_of (dict_append p s d) = (map_of d)(p \<mapsto> lookup_list d p @ [s])"
  by (induction d) (auto simp: fun_eq_iff lookup_list_def)

lemma keys_dict_append: "fst ` set (dict_append p s d) = insert p (fst ` set d)"
proof -
  have "map fst (dict_append p s d) = (if p \<in> fst ` set d then map fst d else map fst d @ [p])"
    by (induction d) (force simp: image_iff)+
  then have "set (map fst (dict_append p s d)) = insert p (set (map fst d))"
    by (auto simp: image_iff)
  then show ?thesis by (simp only: set_map)
qed

lemma distinct_dict_append:
  "distinct (map fst d) \<Longrightarrow> distinct (map fst (dict_append p s d))"
  by (induction d) (auto simp: keys_dict_append)

lemma fold_dict_append_distinct:
  "distinct (map fst d) \<Longrightarrow> distinct (map fst (fold (\<lambda>(p, s). dict_append p s) ps d))"
  by (induction ps arbitrary: d) (auto simp: distinct_dict_append)

lemma fold_dict_append_lookup:
  "map_of (fold (\<lambda>(p, s). dict_append p s) ps d) q =
     (if q \<in> fst ` set ps
      then Some (lookup_list d q @ map snd (filter (\<lambda>pr. fst pr = q) ps))
      else map_of d q)"
proof (induction ps arbitrary: d)
  case Nil
  show ?case by simp
next
  case (Cons pr ps)
  obtain p s where pr: "pr = (p, s)" by (cases pr)
  have l: "lookup_list (dict_append p s d) x
             = (if x = p then lookup_list d p @ [s] else lookup_list d x)" for x
    by (simp add: lookup_list_def map_of_dict_append)
  have e: "x \<notin> fst ` set ps \<Longrightarrow> filter (\<lambda>pr. fst pr = x) ps = []" for x
    by (auto simp: filter_empty_conv)
  show ?case
    by (auto simp: pr Cons.IH l map_of_dict_append e)
qed


section \<open>Properties of the loader\<close>



text \<open>
  Claim C8. When the mandatory part of the file is there, the trailing scan decides the
  outcome. If every trailing token that contains a comma is a token \<open>pred,succ\<close> of two
  integers, loading succeeds: every such token contributes the pair of its two numbers
  less one, the successors of the pairs with the same predecessor are collected, in file
  order, in the one list stored under that predecessor, tokens without a comma
  contribute nothing, and the end of the tokens ends the scan with no error, wherever it
  comes. Otherwise a token with a comma cannot be read as such a pair and loading raises
  \<open>ValueError\<close>.
\<close>

theorem load_successors_from_trailing_tokens:
  assumes "mandatory_fields_ok tokens"
  shows "if \<forall>tok \<in> set (trailing_tokens tokens). CHR '','' \<in> set tok \<longrightarrow> well_formed_pair tok
         then \<exists>inst. load_instance_from_tokens tokens = Inr inst
                \<and> distinct (map fst (successors inst))
                \<and> (\<forall>p. map_of (successors inst) p
                         = (if recorded_successors (trailing_tokens tokens) p = [] then None
                            else Some (recorded_successors (trailing_tokens tokens) p)))
         else load_instance_from_tokens tokens = Inl ValueError"
proof -
  let ?rest = "trailing_tokens tokens"
  let ?sc = "fold (\<lambda>(p, s). dict_append p s) (recorded_pairs ?rest) []"
  from load_trailing[OF assms] obtain n c pt where load:
    "load_instance_from_tokens tokens =
       bind_exn (scan_successors [] ?rest) (\<lambda>sc.
         Inr \<lparr>nb_tasks = n, max_nb_stations = n, cycle_time = c,
              processing_time = pt, successors = sc\<rparr>)"
    by blast
  show ?thesis
  proof (cases "\<forall>tok \<in> set ?rest. CHR '','' \<in> set tok \<longrightarrow> well_formed_pair tok")
    case False
    then have "scan_successors [] ?rest = Inl ValueError" by (rule scan_successors_malformed)
    then have "load_instance_from_tokens tokens = Inl ValueError"
      by (simp add: load bind_exn_def)
    with False show ?thesis by simp
  next
    case True
    then have scan: "scan_successors [] ?rest = Inr ?sc" by (rule scan_successors_well_formed)
    have l: "load_instance_from_tokens tokens
               = Inr \<lparr>nb_tasks = n, max_nb_stations = n, cycle_time = c,
                      processing_time = pt, successors = ?sc\<rparr>"
      by (simp add: load scan bind_exn_def)
    have dist: "distinct (map fst ?sc)" by (rule fold_dict_append_distinct) simp
    have look: "map_of ?sc p = (if recorded_successors ?rest p = [] then None
                                else Some (recorded_successors ?rest p))" for p
    proof -
      have "recorded_successors ?rest p = [] \<longleftrightarrow> p \<notin> fst ` set (recorded_pairs ?rest)"
        by (auto simp: recorded_successors_def filter_empty_conv image_iff)
      then show ?thesis
        by (simp add: fold_dict_append_lookup lookup_list_def)
           (simp add: recorded_successors_def)
    qed
    have "\<exists>inst. load_instance_from_tokens tokens = Inr inst
                \<and> distinct (map fst (successors inst))
                \<and> (\<forall>p. map_of (successors inst) p
                         = (if recorded_successors ?rest p = [] then None
                            else Some (recorded_successors ?rest p)))"
      using l dist look by simp
    with True show ?thesis by simp
  qed
qed

text \<open>
  The sample file ends with \<open>1,3 junk 1,2 2,3\<close>: predecessor 0 gets \<open>[2, 1]\<close>,
  predecessor 1 gets \<open>[2]\<close>. With the token \<open>1,2,3\<close> added at the end, loading raises.
\<close>

theorem load_successors_from_trailing_tokens_witness:
  "mandatory_fields_ok example_tokens
   \<and> trailing_tokens example_tokens = [''1,3'', ''junk'', ''1,2'', ''2,3'']
   \<and> list_all well_formed_pair
        (filter (\<lambda>tok. CHR '','' \<in> set tok) (trailing_tokens example_tokens))
   \<and> recorded_successors (trailing_tokens example_tokens) 0 = [2, 1]
   \<and> recorded_successors (trailing_tokens example_tokens) 1 = [2]
   \<and> recorded_successors (trailing_tokens example_tokens) 2 = []
   \<and> (\<exists>inst. load_instance_from_tokens example_tokens = Inr inst
         \<and> distinct (map fst (successors inst))
         \<and> map_of (successors inst) 0 = Some [2, 1]
         \<and> map_of (successors inst) 1 = Some [2]
         \<and> map_of (successors inst) 2 = None)
   \<and> mandatory_fields_ok (example_tokens @ [''1,2,3''])
   \<and> \<not> list_all well_formed_pair
        (filter (\<lambda>tok. CHR '','' \<in> set tok) (trailing_tokens (example_tokens @ [''1,2,3''])))
   \<and> load_instance_from_tokens (example_tokens @ [''1,2,3'']) = Inl ValueError"
proof -
  have h1: "mandatory_fields_ok example_tokens"
    by (simp add: mandatory_fields_ok_def example_tokens_def py_int_eval)
  have tr: "trailing_tokens example_tokens = [''1,3'', ''junk'', ''1,2'', ''2,3'']"
    by (simp add: trailing_tokens_def example_tokens_def py_int_eval)
  have h2: "\<forall>tok \<in> set (trailing_tokens example_tokens).
              CHR '','' \<in> set tok \<longrightarrow> well_formed_pair tok"
    unfolding tr
    by (simp add: well_formed_pair_def pred_text_def succ_text_def py_int_eval)
  have rs: "recorded_successors (trailing_tokens example_tokens) 0 = [2, 1]"
    "recorded_successors (trailing_tokens example_tokens) 1 = [2]"
    "recorded_successors (trailing_tokens example_tokens) 2 = []"
    unfolding tr
    by (simp_all add: recorded_successors_def recorded_pairs_def pair_of_token_def
          pred_text_def succ_text_def py_int_eval)
  from load_successors_from_trailing_tokens[OF h1]
  have "\<exists>inst. load_instance_from_tokens example_tokens = Inr inst
         \<and> distinct (map fst (successors inst))
         \<and> (\<forall>p. map_of (successors inst) p
                  = (if recorded_successors (trailing_tokens example_tokens) p = [] then None
                     else Some (recorded_successors (trailing_tokens example_tokens) p)))"
    unfolding if_P[OF h2] .
  then obtain inst where i: "load_instance_from_tokens example_tokens = Inr inst"
      "distinct (map fst (successors inst))"
      "\<forall>p. map_of (successors inst) p
             = (if recorded_successors (trailing_tokens example_tokens) p = [] then None
                else Some (recorded_successors (trailing_tokens example_tokens) p))"
    by blast
  have look: "map_of (successors inst) 0 = Some [2, 1]" "map_of (successors inst) 1 = Some [2]"
    "map_of (successors inst) 2 = None"
    by (simp_all add: i(3) rs)
  have w: "list_all well_formed_pair
        (filter (\<lambda>tok. CHR '','' \<in> set tok) (trailing_tokens example_tokens))"
    using h2 unfolding list_all_iff by simp
  have g1: "mandatory_fields_ok (example_tokens @ [''1,2,3''])"
    by (simp add: mandatory_fields_ok_def example_tokens_def py_int_eval)
  have tr': "trailing_tokens (example_tokens @ [''1,2,3''])
               = [''1,3'', ''junk'', ''1,2'', ''2,3'', ''1,2,3'']"
    by (simp add: trailing_tokens_def example_tokens_def py_int_eval)
  have g2: "\<not> (\<forall>tok \<in> set (trailing_tokens (example_tokens @ [''1,2,3''])).
              CHR '','' \<in> set tok \<longrightarrow> well_formed_pair tok)"
    unfolding tr'
    by (simp add: well_formed_pair_def pred_text_def succ_text_def py_int_eval)
  from load_successors_from_trailing_tokens[OF g1]
  have bad: "load_instance_from_tokens (example_tokens @ [''1,2,3'']) = Inl ValueError"
    unfolding if_not_P[OF g2] .
  have nw: "\<not> list_all well_formed_pair
        (filter (\<lambda>tok. CHR '','' \<in> set tok) (trailing_tokens (example_tokens @ [''1,2,3''])))"
    using g2 unfolding list_all_iff by auto
  from h1 tr w rs i(1,2) look g1 nw bad show ?thesis by blast
qed

text \<open>
  Claim C9. When the tokens end before a mandatory field (the three header tokens, the
  task count, two tokens, the cycle time, five tokens, the \<open>nb_tasks\<close> pairs, two
  tokens) or one of the mandatory numbers (task count, cycle time, the numbers of the
  pairs) is not an integer, loading yields no instance: it raises \<open>StopIteration\<close> or
  \<open>ValueError\<close>, the two exceptions of the loader, which the specification names
  ParseError.
\<close>

theorem load_fails_on_bad_mandatory_field:
  assumes "\<not> mandatory_fields_ok tokens"
  shows "load_instance_from_tokens tokens = Inl StopIteration
       \<or> load_instance_from_tokens tokens = Inl ValueError"
proof (cases "load_instance_from_tokens tokens")
  case (Inl e)
  then show ?thesis using load_errors[OF Inl] by auto
next
  case (Inr inst)
  then have "mandatory_fields_ok tokens"
    unfolding load_Inr by (auto simp: mandatory_fields_ok_def)
  with assms show ?thesis by simp
qed

text \<open>
  The sample file cut after 19 tokens lacks one of the two tokens after the pairs; with
  \<open>x\<close> for the task count the count is not an integer.
\<close>

theorem load_fails_on_bad_mandatory_field_witness:
  "\<not> mandatory_fields_ok (take 19 example_tokens)
   \<and> load_instance_from_tokens (take 19 example_tokens) = Inl StopIteration
   \<and> \<not> mandatory_fields_ok (example_tokens[3 := ''x''])
   \<and> load_instance_from_tokens (example_tokens[3 := ''x'']) = Inl ValueError"
proof -
  have h1: "\<not> mandatory_fields_ok (take 19 example_tokens)"
    by (simp add: mandatory_fields_ok_def example_tokens_def py_int_eval)
  have h2: "\<not> mandatory_fields_ok (example_tokens[3 := ''x''])"
    by (simp add: mandatory_fields_ok_def example_tokens_def py_int_eval)
  have n1: "load_instance_from_tokens (take 19 example_tokens) \<noteq> Inl ValueError"
    by (simp add: load_instance_from_tokens_def bind_exn_def example_tokens_def read_int_def
          py_int_eval eval_nat_numeral)
  have n2: "load_instance_from_tokens (example_tokens[3 := ''x'']) \<noteq> Inl StopIteration"
    by (simp add: load_instance_from_tokens_def bind_exn_def example_tokens_def read_int_def
          py_int_eval eval_nat_numeral)
  from load_fails_on_bad_mandatory_field[OF h1] n1
  have r1: "load_instance_from_tokens (take 19 example_tokens) = Inl StopIteration" by blast
  from load_fails_on_bad_mandatory_field[OF h2] n2
  have r2: "load_instance_from_tokens (example_tokens[3 := ''x'']) = Inl ValueError" by blast
  from h1 r1 h2 r2 show ?thesis by blast
qed

end
